theory Spec2Isabelle
  imports Main
begin

section \<open>The wall clock and \<^verbatim>\<open>new Date().toISOString()\<close>\<close>

text \<open>
  The component reads the time with \<^verbatim>\<open>new Date().toISOString()\<close> (Preview.tsx, lines 92
  and 118). Both are builtins of the host, not code of the repository; they are modelled
  after ECMA-262, section 21.4.1 (time values and their day, year, month and date
  components) and section 21.4.4.36 (Date.prototype.toISOString). A time value is the
  number of milliseconds since 1970-01-01T00:00:00Z; the clock of the model is a natural
  number, so every reading is at or after the epoch. The largest time value of ECMA-262 is
  8640000000000000.
\<close>

definition msPerDay :: nat where "msPerDay = 86400000"

definition Day :: "nat \<Rightarrow> nat" where "Day t = t div msPerDay"

definition DaysInYear :: "nat \<Rightarrow> nat" where
  "DaysInYear y =
     (if y mod 4 \<noteq> 0 then 365
      else if y mod 100 \<noteq> 0 then 366
      else if y mod 400 \<noteq> 0 then 365
      else 366)"

definition DayFromYear :: "nat \<Rightarrow> nat" where
  "DayFromYear y =
     365 * (y - 1970) + (y - 1969) div 4 + (y - 1601) div 400 - (y - 1901) div 100"

text \<open>
  \<open>DayFromYear\<close> is the day number of the first day of year \<open>y\<close>, for \<open>y\<close> from 1970 on.
  Its step from one year to the next is the length of the year; the termination of the
  year search below rests on that.
\<close>

lemma div400_imp_div100: "(k + 370) mod 400 = (0::nat) \<Longrightarrow> (k + 70) mod 100 = 0"
proof -
  assume "(k + 370) mod 400 = 0"
  then have "400 dvd (k + 370)" by (simp add: mod_eq_0_iff_dvd)
  moreover have "(100::nat) dvd 400" by simp
  ultimately have "100 dvd (k + 370)" using dvd_trans by blast
  moreover have "k + 370 = (k + 70) + 100 * 3" by simp
  ultimately have "100 dvd (k + 70)" by (metis dvd_add_times_triv_right_iff mult.commute)
  then show ?thesis by (simp add: mod_eq_0_iff_dvd)
qed

lemma div100_imp_div4: "(k + 70) mod 100 = (0::nat) \<Longrightarrow> (k + 2) mod 4 = 0"
proof -
  assume "(k + 70) mod 100 = 0"
  then have "100 dvd (k + 70)" by (simp add: mod_eq_0_iff_dvd)
  moreover have "(4::nat) dvd 100" by simp
  ultimately have "4 dvd (k + 70)" using dvd_trans by blast
  moreover have "k + 70 = (k + 2) + 4 * 17" by simp
  ultimately have "4 dvd (k + 2)" by (metis dvd_add_times_triv_right_iff mult.commute)
  then show ?thesis by (simp add: mod_eq_0_iff_dvd)
qed

lemma year_mod4: "(1970 + k) mod 4 = (k + 2) mod (4::nat)"
proof -
  have "1970 + k = (k + 2) + 4 * 492" by simp
  then show ?thesis by (metis mod_mult_self2)
qed

lemma year_mod100: "(1970 + k) mod 100 = (k + 70) mod (100::nat)"
proof -
  have "1970 + k = (k + 70) + 100 * 19" by simp
  then show ?thesis by (metis mod_mult_self2)
qed

lemma year_mod400: "(1970 + k) mod 400 = (k + 370) mod (400::nat)"
proof -
  have "1970 + k = (k + 370) + 400 * 4" by simp
  then show ?thesis by (metis mod_mult_self2)
qed

lemma DayFromYear_step:
  "DayFromYear (Suc (1970 + k)) = DayFromYear (1970 + k) + DaysInYear (1970 + k)"
proof -
  define a where "a = (k + 1) div 4"
  define b where "b = (k + 69) div 100"
  define c where "c = (k + 369) div 400"
  have s4: "k + 2 = Suc (k + 1)" and s100: "k + 70 = Suc (k + 69)"
    and s400: "k + 370 = Suc (k + 369)" by simp_all
  have e4: "(k + 2) div 4 = a + (if (k + 2) mod 4 = 0 then 1 else 0)"
    unfolding s4 a_def by (simp only: div_Suc split: if_splits) simp
  have e100: "(k + 70) div 100 = b + (if (k + 70) mod 100 = 0 then 1 else 0)"
    unfolding s100 b_def by (simp only: div_Suc split: if_splits) simp
  have e400: "(k + 370) div 400 = c + (if (k + 370) mod 400 = 0 then 1 else 0)"
    unfolding s400 c_def by (simp only: div_Suc split: if_splits) simp
  have le: "b \<le> 365 * k" unfolding b_def by arith
  have l: "DayFromYear (Suc (1970 + k)) =
      365 * (k + 1) + (k + 2) div 4 + (k + 370) div 400 - (k + 70) div 100"
    by (simp add: DayFromYear_def add.commute)
  have r: "DayFromYear (1970 + k) = 365 * k + a + c - b"
    by (simp add: DayFromYear_def a_def b_def c_def add.commute)
  have d: "DaysInYear (1970 + k) =
     (if (k + 2) mod 4 \<noteq> 0 then 365
      else if (k + 70) mod 100 \<noteq> 0 then 366
      else if (k + 370) mod 400 \<noteq> 0 then 365
      else 366)"
    unfolding DaysInYear_def year_mod4 year_mod100 year_mod400 ..
  show ?thesis
    unfolding l r d e4 e100 e400
    using le div400_imp_div100 [of k] div100_imp_div4 [of k]
    by (auto split: if_splits)
qed

lemma DayFromYear_Suc:
  assumes "1970 \<le> y"
  shows "DayFromYear (Suc y) = DayFromYear y + DaysInYear y"
proof -
  from assms obtain k where "y = 1970 + k" using le_Suc_ex by blast
  then show ?thesis using DayFromYear_step [of k] by simp
qed

lemma DaysInYear_bounds: "365 \<le> DaysInYear y" "DaysInYear y \<le> 366"
  by (simp_all add: DaysInYear_def)

text \<open>
  \<open>YearFromTime t\<close> is the largest year whose first day is not after \<open>t\<close>: the search
  walks up from 1970.
\<close>

function year_search :: "nat \<Rightarrow> nat \<Rightarrow> nat" where
  "year_search d y =
     (if 1970 \<le> y \<and> DayFromYear (Suc y) \<le> d then year_search d (Suc y) else y)"
  by pat_completeness auto
termination
proof (relation "measure (\<lambda>(d, y). Suc d - DayFromYear (Suc y))")
  show "wf (measure (\<lambda>(d, y). Suc d - DayFromYear (Suc y)))" by simp
next
  fix d y
  assume a: "1970 \<le> y \<and> DayFromYear (Suc y) \<le> d"
  then have "DayFromYear (Suc (Suc y)) = DayFromYear (Suc y) + DaysInYear (Suc y)"
    by (simp add: DayFromYear_Suc)
  with a DaysInYear_bounds(1) [of "Suc y"]
  show "((d, Suc y), (d, y)) \<in> measure (\<lambda>(d, y). Suc d - DayFromYear (Suc y))"
    by (simp, linarith)
qed

declare year_search.simps [simp del]

lemma year_search_spec:
  "1970 \<le> y \<Longrightarrow> DayFromYear y \<le> d \<Longrightarrow>
     y \<le> year_search d y \<and> DayFromYear (year_search d y) \<le> d
       \<and> d < DayFromYear (Suc (year_search d y))"
proof (induction d y rule: year_search.induct)
  case (1 d y)
  show ?case
  proof (cases "DayFromYear (Suc y) \<le> d")
    case True
    with "1.prems" have st: "year_search d y = year_search d (Suc y)"
      by (subst year_search.simps) simp
    from "1.IH" True "1.prems" show ?thesis unfolding st by simp
  next
    case False
    then have st: "year_search d y = y"
      by (subst year_search.simps) simp
    from False "1.prems" show ?thesis unfolding st by simp
  qed
qed

definition YearFromTime :: "nat \<Rightarrow> nat" where
  "YearFromTime t = year_search (Day t) 1970"

definition InLeapYear :: "nat \<Rightarrow> nat" where
  "InLeapYear t = (if DaysInYear (YearFromTime t) = 366 then 1 else 0)"

definition DayWithinYear :: "nat \<Rightarrow> nat" where
  "DayWithinYear t = Day t - DayFromYear (YearFromTime t)"

definition MonthFromTime :: "nat \<Rightarrow> nat" where
  "MonthFromTime t =
     (let d = DayWithinYear t; l = InLeapYear t in
      if d < 31 then 0
      else if d < 59 + l then 1
      else if d < 90 + l then 2
      else if d < 120 + l then 3
      else if d < 151 + l then 4
      else if d < 181 + l then 5
      else if d < 212 + l then 6
      else if d < 243 + l then 7
      else if d < 273 + l then 8
      else if d < 304 + l then 9
      else if d < 334 + l then 10
      else 11)"

definition DateFromTime :: "nat \<Rightarrow> nat" where
  "DateFromTime t =
     (let d = DayWithinYear t; l = InLeapYear t; m = MonthFromTime t in
      if m = 0 then d + 1
      else if m = 1 then d - 30
      else if m = 2 then d - 58 - l
      else if m = 3 then d - 89 - l
      else if m = 4 then d - 119 - l
      else if m = 5 then d - 150 - l
      else if m = 6 then d - 180 - l
      else if m = 7 then d - 211 - l
      else if m = 8 then d - 242 - l
      else if m = 9 then d - 272 - l
      else if m = 10 then d - 303 - l
      else d - 333 - l)"

definition HourFromTime :: "nat \<Rightarrow> nat" where
  "HourFromTime t = (t div 3600000) mod 24"

definition MinFromTime :: "nat \<Rightarrow> nat" where
  "MinFromTime t = (t div 60000) mod 60"

definition SecFromTime :: "nat \<Rightarrow> nat" where
  "SecFromTime t = (t div 1000) mod 60"

definition msFromTime :: "nat \<Rightarrow> nat" where
  "msFromTime t = t mod 1000"

text \<open>
  Decimal fields are padded with zeros to a fixed width. \<open>toISOString\<close> writes
  \<^verbatim>\<open>YYYY-MM-DDTHH:mm:ss.sssZ\<close>, and the expanded year \<^verbatim>\<open>+YYYYYY\<close> beyond the year 9999.
\<close>

definition digit :: "nat \<Rightarrow> char" where
  "digit n = ''0123456789'' ! n"

primrec pad :: "nat \<Rightarrow> nat \<Rightarrow> string" where
  "pad 0 n = []"
| "pad (Suc w) n = pad w (n div 10) @ [digit (n mod 10)]"

definition year_string :: "nat \<Rightarrow> string" where
  "year_string y = (if y \<le> 9999 then pad 4 y else ''+'' @ pad 6 y)"

definition toISOString :: "nat \<Rightarrow> string" where
  "toISOString t =
     year_string (YearFromTime t) @ ''-'' @ pad 2 (MonthFromTime t + 1) @ ''-'' @
     pad 2 (DateFromTime t) @ ''T'' @ pad 2 (HourFromTime t) @ '':'' @
     pad 2 (MinFromTime t) @ '':'' @ pad 2 (SecFromTime t) @ ''.'' @
     pad 3 (msFromTime t) @ ''Z''"

text \<open>
  The ISO-8601 check accepts exactly the date-time format above: the field widths and
  separators, decimal digits in every field, a month from 01 to 12, a day that exists in
  that month of that year, an hour below 24, minutes and seconds below 60.
\<close>

definition is_digit :: "char \<Rightarrow> bool" where
  "is_digit c = (48 \<le> (of_char c :: nat) \<and> (of_char c :: nat) \<le> 57)"

definition num :: "string \<Rightarrow> nat" where
  "num s = foldl (\<lambda>a c. 10 * a + (of_char c - 48)) 0 s"

definition month_days :: "nat \<Rightarrow> nat \<Rightarrow> nat" where
  "month_days y m =
     (if m = 2 then (if DaysInYear y = 366 then 29 else 28)
      else if m = 4 \<or> m = 6 \<or> m = 9 \<or> m = 11 then 30 else 31)"

fun chop :: "nat list \<Rightarrow> 'a list \<Rightarrow> 'a list list" where
  "chop [] s = []"
| "chop (w # ws) s = take w s # chop ws (drop w s)"

definition iso8601 :: "string \<Rightarrow> bool" where
  "iso8601 s =
     (let signed = (take 1 s = ''+'' \<or> take 1 s = ''-'');
          yl = (if signed then 6 else 4);
          r = (if signed then drop 1 s else s)
      in length r = yl + 20 \<and>
        (case chop [yl, 1, 2, 1, 2, 1, 2, 1, 2, 1, 2, 1, 3, 1] r of
           [y, d1, mo, d2, d, t, h, c1, mi, c2, se, p, ms, z] \<Rightarrow>
             list_all is_digit (y @ mo @ d @ h @ mi @ se @ ms) \<and>
             d1 = ''-'' \<and> d2 = ''-'' \<and> t = ''T'' \<and> c1 = '':'' \<and> c2 = '':'' \<and>
             p = ''.'' \<and> z = ''Z'' \<and>
             1 \<le> num mo \<and> num mo \<le> 12 \<and>
             1 \<le> num d \<and> num d \<le> month_days (num y) (num mo) \<and>
             num h < 24 \<and> num mi < 60 \<and> num se < 60
         | _ \<Rightarrow> False))"

subsection \<open>Every clock reading is written as a valid ISO-8601 string\<close>

lemma pad_3: "pad 3 n = [digit (n div 100 mod 10), digit (n div 10 mod 10), digit (n mod 10)]"
  by (simp add: numeral_3_eq_3 div_mult2_eq [symmetric])

lemma pad_4: "pad 4 n = [digit (n div 1000 mod 10), digit (n div 100 mod 10),
    digit (n div 10 mod 10), digit (n mod 10)]"
proof -
  have "pad 4 n = pad (Suc 3) n" by simp
  also have "\<dots> = pad 3 (n div 10) @ [digit (n mod 10)]" by (rule pad.simps)
  finally show ?thesis by (simp add: pad_3 div_mult2_eq [symmetric])
qed

lemma digit_props:
  assumes "k < 10"
  shows "is_digit (digit k)" and "of_char (digit k) - 48 = k"
    and "digit k \<noteq> CHR ''+''" and "digit k \<noteq> CHR ''-''"
proof -
  from assms have "k = 0 \<or> k = 1 \<or> k = 2 \<or> k = 3 \<or> k = 4
    \<or> k = 5 \<or> k = 6 \<or> k = 7 \<or> k = 8 \<or> k = 9" by arith
  then have "is_digit (digit k) \<and> of_char (digit k) - 48 = k
      \<and> digit k \<noteq> CHR ''+'' \<and> digit k \<noteq> CHR ''-''"
    by (elim disjE) (simp_all add: digit_def is_digit_def)
  then show "is_digit (digit k)" and "of_char (digit k) - 48 = k"
    and "digit k \<noteq> CHR ''+''" and "digit k \<noteq> CHR ''-''" by simp_all
qed

lemma length_pad [simp]: "length (pad w n) = w"
  by (induction w arbitrary: n) simp_all

lemma digits_pad [simp]: "list_all is_digit (pad w n)"
  by (induction w arbitrary: n) (simp_all add: digit_props)

lemma num_snoc: "num (s @ [c]) = 10 * num s + (of_char c - 48)"
  by (simp add: num_def)

lemma num_pad: "num (pad w n) = n mod 10 ^ w"
proof (induction w arbitrary: n)
  case 0
  show ?case by (simp add: num_def)
next
  case (Suc w)
  have "num (pad (Suc w) n) = 10 * (n div 10 mod 10 ^ w) + n mod 10"
    by (simp add: num_snoc Suc.IH digit_props)
  also have "\<dots> = n mod (10 * 10 ^ w)"
    by (simp add: mod_mult2_eq)
  finally show ?case by simp
qed

lemma DayFromYear_1970: "DayFromYear 1970 = 0"
  by (simp add: DayFromYear_def)

lemma YearFromTime_spec:
  "1970 \<le> YearFromTime t" "DayFromYear (YearFromTime t) \<le> Day t"
  "Day t < DayFromYear (Suc (YearFromTime t))"
  using year_search_spec [of 1970 "Day t"]
  by (simp_all add: YearFromTime_def DayFromYear_1970)

lemma DayWithinYear_less: "DayWithinYear t < DaysInYear (YearFromTime t)"
  using YearFromTime_spec [of t] DayFromYear_Suc [of "YearFromTime t"]
  by (simp add: DayWithinYear_def)

lemma MonthFromTime_less: "MonthFromTime t < 12"
  by (simp add: MonthFromTime_def Let_def)

lemma DateFromTime_bounds:
  "1 \<le> DateFromTime t"
  "DateFromTime t \<le> month_days (YearFromTime t) (MonthFromTime t + 1)"
proof -
  define d where "d = DayWithinYear t"
  define l where "l = InLeapYear t"
  have dl: "d < 365 + l"
    using DayWithinYear_less [of t] DaysInYear_bounds [of "YearFromTime t"]
    by (auto simp: d_def l_def InLeapYear_def)
  have l01: "l = 0 \<or> l = 1" by (simp add: l_def InLeapYear_def)
  have feb: "(DaysInYear (YearFromTime t) = 366) = (l = 1)"
    by (simp add: l_def InLeapYear_def)
  have m: "MonthFromTime t =
     (if d < 31 then 0
      else if d < 59 + l then 1
      else if d < 90 + l then 2
      else if d < 120 + l then 3
      else if d < 151 + l then 4
      else if d < 181 + l then 5
      else if d < 212 + l then 6
      else if d < 243 + l then 7
      else if d < 273 + l then 8
      else if d < 304 + l then 9
      else if d < 334 + l then 10
      else 11)"
    by (simp add: MonthFromTime_def Let_def d_def l_def)
  consider "d < 31" | "31 \<le> d" "d < 59 + l" | "59 + l \<le> d" "d < 90 + l"
    | "90 + l \<le> d" "d < 120 + l" | "120 + l \<le> d" "d < 151 + l"
    | "151 + l \<le> d" "d < 181 + l" | "181 + l \<le> d" "d < 212 + l"
    | "212 + l \<le> d" "d < 243 + l" | "243 + l \<le> d" "d < 273 + l"
    | "273 + l \<le> d" "d < 304 + l" | "304 + l \<le> d" "d < 334 + l"
    | "334 + l \<le> d" by linarith
  then have "1 \<le> DateFromTime t
      \<and> DateFromTime t \<le> month_days (YearFromTime t) (MonthFromTime t + 1)"
  proof cases
    case 1
    then show ?thesis
      by (simp add: DateFromTime_def Let_def m d_def [symmetric] month_days_def)
  next
    case 2
    then have "MonthFromTime t = 1" by (simp add: m)
    with 2 l01 show ?thesis
      by (auto simp add: DateFromTime_def Let_def d_def [symmetric] month_days_def feb)
  next
    case 3
    then have "MonthFromTime t = 2" by (simp add: m)
    with 3 show ?thesis
      by (simp add: DateFromTime_def Let_def d_def [symmetric] l_def [symmetric] month_days_def;
          arith)
  next
    case 4
    then have "MonthFromTime t = 3" by (simp add: m)
    with 4 show ?thesis
      by (simp add: DateFromTime_def Let_def d_def [symmetric] l_def [symmetric] month_days_def;
          arith)
  next
    case 5
    then have "MonthFromTime t = 4" by (simp add: m)
    with 5 show ?thesis
      by (simp add: DateFromTime_def Let_def d_def [symmetric] l_def [symmetric] month_days_def;
          arith)
  next
    case 6
    then have "MonthFromTime t = 5" by (simp add: m)
    with 6 show ?thesis
      by (simp add: DateFromTime_def Let_def d_def [symmetric] l_def [symmetric] month_days_def;
          arith)
  next
    case 7
    then have "MonthFromTime t = 6" by (simp add: m)
    with 7 show ?thesis
      by (simp add: DateFromTime_def Let_def d_def [symmetric] l_def [symmetric] month_days_def;
          arith)
  next
    case 8
    then have "MonthFromTime t = 7" by (simp add: m)
    with 8 show ?thesis
      by (simp add: DateFromTime_def Let_def d_def [symmetric] l_def [symmetric] month_days_def;
          arith)
  next
    case 9
    then have "MonthFromTime t = 8" by (simp add: m)
    with 9 show ?thesis
      by (simp add: DateFromTime_def Let_def d_def [symmetric] l_def [symmetric] month_days_def;
          arith)
  next
    case 10
    then have "MonthFromTime t = 9" by (simp add: m)
    with 10 show ?thesis
      by (simp add: DateFromTime_def Let_def d_def [symmetric] l_def [symmetric] month_days_def;
          arith)
  next
    case 11
    then have "MonthFromTime t = 10" by (simp add: m)
    with 11 show ?thesis
      by (simp add: DateFromTime_def Let_def d_def [symmetric] l_def [symmetric] month_days_def;
          arith)
  next
    case 12
    then have "MonthFromTime t = 11" by (simp add: m)
    with 12 dl show ?thesis
      by (simp add: DateFromTime_def Let_def d_def [symmetric] l_def [symmetric] month_days_def;
          arith)
  qed
  then show "1 \<le> DateFromTime t"
    and "DateFromTime t \<le> month_days (YearFromTime t) (MonthFromTime t + 1)" by simp_all
qed

lemma DayFromYear_lower: "365 * (y - 1970) \<le> DayFromYear y"
  unfolding DayFromYear_def by arith

lemma YearFromTime_upper:
  assumes "t \<le> 8640000000000000"
  shows "YearFromTime t < 1000000"
proof -
  have "Day t \<le> 100000000"
    using assms by (simp add: Day_def msPerDay_def) 
  with YearFromTime_spec(2) [of t] DayFromYear_lower [of "YearFromTime t"]
  show ?thesis by arith
qed

lemma iso8601_unsigned:
  assumes "y \<le> 9999" "1 \<le> mo" "mo \<le> 12" "1 \<le> d" "d \<le> month_days y mo"
    "h < 24" "mi < 60" "se < 60"
  shows "iso8601 (pad 4 y @ ''-'' @ pad 2 mo @ ''-'' @ pad 2 d @ ''T'' @ pad 2 h @ '':'' @
     pad 2 mi @ '':'' @ pad 2 se @ ''.'' @ pad 3 ms @ ''Z'')"
proof -
  have sg: "take (Suc 0) (pad 4 y) \<noteq> ''+''" "take (Suc 0) (pad 4 y) \<noteq> ''-''"
    by (simp_all add: pad_4 digit_props)
  have d31: "d \<le> 31" using assms(5) by (simp add: month_days_def split: if_splits)
  from assms d31 show ?thesis
    unfolding iso8601_def Let_def
    by (simp add: sg num_pad)
qed

lemma iso8601_signed:
  assumes "y < 1000000" "1 \<le> mo" "mo \<le> 12" "1 \<le> d" "d \<le> month_days y mo"
    "h < 24" "mi < 60" "se < 60"
  shows "iso8601 (''+'' @ pad 6 y @ ''-'' @ pad 2 mo @ ''-'' @ pad 2 d @ ''T'' @ pad 2 h @ '':'' @
     pad 2 mi @ '':'' @ pad 2 se @ ''.'' @ pad 3 ms @ ''Z'')"
proof -
  have d31: "d \<le> 31" using assms(5) by (simp add: month_days_def split: if_splits)
  from assms d31 show ?thesis
    unfolding iso8601_def Let_def
    by (simp add: num_pad)
qed

lemma toISOString_valid:
  assumes "t \<le> 8640000000000000"
  shows "iso8601 (toISOString t)"
proof -
  have mo: "1 \<le> MonthFromTime t + 1" "MonthFromTime t + 1 \<le> 12"
    using MonthFromTime_less [of t] by simp_all
  have hms: "HourFromTime t < 24" "MinFromTime t < 60" "SecFromTime t < 60"
    by (simp_all add: HourFromTime_def MinFromTime_def SecFromTime_def)
  show ?thesis
  proof (cases "YearFromTime t \<le> 9999")
    case True
    then show ?thesis
      unfolding toISOString_def year_string_def
      using iso8601_unsigned [OF True mo DateFromTime_bounds hms] by simp
  next
    case False
    then show ?thesis
      unfolding toISOString_def year_string_def
      using iso8601_signed [OF YearFromTime_upper [OF assms] mo DateFromTime_bounds hms]
      by simp
  qed
qed

lemma toISOString_nonempty: "toISOString t \<noteq> []"
  by (simp add: toISOString_def)

text \<open>
  The model on sample readings: the epoch, an ordinary instant, the leap days of 2000 and
  2024, and the first of March of 2100, a year that is not a leap year.
\<close>

lemma pad_2: "pad 2 n = [digit (n div 10 mod 10), digit (n mod 10)]"
  by (simp add: numeral_2_eq_2)

lemmas date_eval = toISOString_def year_string_def YearFromTime_def Day_def msPerDay_def
  year_search.simps DayFromYear_def DaysInYear_def InLeapYear_def DayWithinYear_def
  MonthFromTime_def DateFromTime_def HourFromTime_def MinFromTime_def SecFromTime_def
  msFromTime_def digit_def Let_def pad_2 pad_3 pad_4

lemma toISOString_epoch: "toISOString 0 = ''1970-01-01T00:00:00.000Z''"
  by (simp add: date_eval)

lemma toISOString_2023: "toISOString 1700000000000 = ''2023-11-14T22:13:20.000Z''"
  by (simp add: date_eval)

lemma toISOString_leap_2000: "toISOString 951782400000 = ''2000-02-29T00:00:00.000Z''"
  by (simp add: date_eval)

lemma toISOString_leap_2024: "toISOString 1709251199999 = ''2024-02-29T23:59:59.999Z''"
  by (simp add: date_eval)

lemma toISOString_2100: "toISOString 4107542400000 = ''2100-03-01T00:00:00.000Z''"
  by (simp add: date_eval)

section \<open>The display widget \<^verbatim>\<open>TimeDisplay\<close>\<close>

text \<open>
  \<open>RenderMode\<close> and \<open>TimeState\<close> are the two interfaces of Preview.tsx (lines 20 to 29): the
  mode is \<^verbatim>\<open>'client'\<close> (periodic update) or \<^verbatim>\<open>'server'\<close> (no update), the state holds the
  timestamp text and the flag \<open>isHydrated\<close> (initialized).
\<close>

datatype RenderMode = client | server

record TimeState =
  timestamp :: string
  isHydrated :: bool

text \<open>
  What a render returns (lines 137 to 183): the loading placeholder while the timestamp is
  the empty string, else the panel with the class of the indicator dot, the label, the
  timestamp shown, the mode message and, in a development build only, the debug line. The
  build mode \<^verbatim>\<open>process.env.NODE_ENV === 'development'\<close> is a parameter.
\<close>

datatype element =
    LoadingDisplay
  | Panel (indicator: string) (label: string) (shown: string) (message: string)
      (debug: "string option")

definition TimeDisplay :: "bool \<Rightarrow> RenderMode \<Rightarrow> TimeState \<Rightarrow> element" where
  "TimeDisplay development mode timeData =
     (if timestamp timeData = [] then LoadingDisplay
      else Panel
        (if mode = client \<and> isHydrated timeData
         then ''bg-green-500 animate-pulse'' else ''bg-blue-500'')
        (if mode = client then ''Client Rendered'' else ''Server Rendered'')
        (timestamp timeData)
        (if mode = client then ''Live updating with Suspense''
         else ''Static server render with Suspense'')
        (if development then Some (if isHydrated timeData then ''Yes'' else ''No'')
         else None))"

text \<open>
  The host: the wall clock, the interval timers that are armed, and the console. Timer
  ids are handed out in increasing order and never reused. \<open>calls\<close> is a history variable:
  it records the id of a timer each time its callback is invoked, most recent first.
\<close>

record Browser =
  clock :: nat
  next_id :: nat
  timers :: "nat list"
  calls :: "nat list"
  console :: "string list"

definition setInterval :: "Browser \<Rightarrow> Browser \<times> nat" where
  "setInterval b =
     (b\<lparr>next_id := Suc (next_id b), timers := next_id b # timers b\<rparr>, next_id b)"

definition clearInterval :: "nat \<Rightarrow> Browser \<Rightarrow> Browser" where
  "clearInterval i b = b\<lparr>timers := removeAll i (timers b)\<rparr>"

definition console_log :: "string \<Rightarrow> Browser \<Rightarrow> Browser" where
  "console_log s b = b\<lparr>console := console b @ [s]\<rparr>"

text \<open>
  One mounted instance of the component: its prop, its \<^verbatim>\<open>useState\<close> cell and the bookkeeping
  of its two effects. \<open>hydration_ran\<close> says that the effect with the empty dependency list
  (lines 88 to 95) has run; \<open>update_deps\<close> are the dependencies \<^verbatim>\<open>[mode, timeData.isHydrated]\<close>
  of the last run of the update effect (lines 107 to 129) and \<open>cleanup\<close> is the interval
  captured by the cleanup function that run returned, if it returned one. \<open>pending\<close> says
  that the effects of the first render have not been run yet. \<open>hydrations\<close> is a history
  variable: it counts the runs of the body of the hydration effect.
\<close>

record Fiber =
  mode :: RenderMode
  timeData :: TimeState
  hydration_ran :: bool
  update_deps :: "(RenderMode \<times> bool) option"
  cleanup :: "nat option"
  pending :: bool
  hydrations :: nat

definition mount :: "RenderMode \<Rightarrow> Fiber" where
  "mount m = \<lparr>mode = m, timeData = \<lparr>timestamp = [], isHydrated = False\<rparr>,
     hydration_ran = False, update_deps = None, cleanup = None, pending = True,
     hydrations = 0\<rparr>"

text \<open>
  The bodies of the two effects, of the interval callback and of the cleanup, as the
  source writes them. The update effect reads \<open>mode\<close> and \<open>timeData.isHydrated\<close> from the
  render that created it, so both are arguments.
\<close>

definition hydration_effect :: "Browser \<Rightarrow> Fiber \<Rightarrow> Fiber" where
  "hydration_effect b f =
     f\<lparr>timeData := \<lparr>timestamp = toISOString (clock b), isHydrated = True\<rparr>,
       hydrations := Suc (hydrations f)\<rparr>"

definition interval_callback :: "Browser \<Rightarrow> TimeState \<Rightarrow> TimeState" where
  "interval_callback b prev = prev\<lparr>timestamp := toISOString (clock b)\<rparr>"

definition update_effect :: "RenderMode \<Rightarrow> bool \<Rightarrow> Browser \<Rightarrow> Browser \<times> nat option" where
  "update_effect m h b =
     (if m = client \<and> h
      then (let (b', interval) = setInterval (console_log ''Setting up client-side time updates'' b)
            in (b', Some interval))
      else (b, None))"

definition update_cleanup :: "nat \<Rightarrow> Browser \<Rightarrow> Browser" where
  "update_cleanup interval b =
     clearInterval interval (console_log ''Cleaning up client-side updates'' b)"

text \<open>
  The effects of one committed render: the cleanup of an effect whose dependencies
  changed runs first, then the effect bodies in the order of the source. The hydration
  effect has no dependencies and runs after the first render only. It sets the state, so
  the component renders again and the effects of that second render follow; no effect
  of the second render sets the state, so \<open>flush\<close> ends there. Effects run once per commit
  (the double invocation of a development Strict Mode is not modelled).
\<close>

definition commit_effects :: "Browser \<times> Fiber \<Rightarrow> Browser \<times> Fiber" where
  "commit_effects bf =
     (let b = fst bf; f = snd bf;
          m = mode f; h = isHydrated (timeData f);
          rerun = (update_deps f \<noteq> Some (m, h));
          b1 = (if rerun then (case cleanup f of Some i \<Rightarrow> update_cleanup i b | None \<Rightarrow> b)
                else b);
          f1 = (if hydration_ran f then f else (hydration_effect b1 f)\<lparr>hydration_ran := True\<rparr>);
          b2 = (if rerun then fst (update_effect m h b1) else b1);
          f2 = (if rerun
                then f1\<lparr>update_deps := Some (m, h), cleanup := snd (update_effect m h b1)\<rparr>
                else f1)
      in (b2, f2\<lparr>pending := False\<rparr>))"

definition flush :: "Browser \<times> Fiber \<Rightarrow> Browser \<times> Fiber" where
  "flush bf =
     (if hydration_ran (snd bf) then commit_effects bf
      else commit_effects (commit_effects bf))"

definition flushPassiveEffects :: "Browser \<times> Fiber \<Rightarrow> Browser \<times> Fiber" where
  "flushPassiveEffects bf = (if pending (snd bf) then flush bf else bf)"

text \<open>
  What can happen to the widget: it is mounted with a mode; the effects of its first
  render run; the mode controller passes another mode; the host fires the callback of
  timer \<open>i\<close>; time passes; the widget is unmounted. An event is handled to the end before
  the next one: the render, its cleanup and its effects are one step. A timer that is not
  armed does not fire. Only one instance is mounted at a time.
\<close>

datatype event = Mount RenderMode | Effects | SetMode RenderMode | Tick nat | Elapse nat
  | Unmount

type_synonym World = "Browser \<times> Fiber option"

fun step :: "event \<Rightarrow> World \<Rightarrow> World" where
  "step (Mount m) (b, None) = (b, Some (mount m))"
| "step (Mount m) (b, Some f) = (b, Some f)"
| "step Effects (b, Some f) = map_prod id Some (flushPassiveEffects (b, f))"
| "step (SetMode m) (b, Some f) =
     (let (b1, f1) = flushPassiveEffects (b, f)
      in map_prod id Some (flush (b1, f1\<lparr>mode := m\<rparr>)))"
| "step (Tick i) (b, Some f) =
     (if i \<in> set (timers b)
      then map_prod id Some
        (flush (b\<lparr>calls := i # calls b\<rparr>, f\<lparr>timeData := interval_callback b (timeData f)\<rparr>))
      else (b, Some f))"
| "step (Tick i) (b, None) =
     (if i \<in> set (timers b) then (b\<lparr>calls := i # calls b\<rparr>, None) else (b, None))"
| "step (Elapse n) (b, w) = (b\<lparr>clock := clock b + n\<rparr>, w)"
| "step Unmount (b, Some f) =
     (let (b1, f1) = flushPassiveEffects (b, f)
      in ((case cleanup f1 of Some i \<Rightarrow> update_cleanup i b1 | None \<Rightarrow> b1), None))"
| "step e (b, None) = (b, None)"

fun run :: "event list \<Rightarrow> World \<Rightarrow> World" where
  "run [] w = w"
| "run (e # es) w = run es (step e w)"

definition boot :: "nat \<Rightarrow> World" where
  "boot c = (\<lparr>clock = c, next_id = 1, timers = [], calls = [], console = []\<rparr>, None)"

lemmas model_defs = boot_def flushPassiveEffects_def flush_def commit_effects_def
  update_cleanup_def update_effect_def interval_callback_def hydration_effect_def mount_def
  console_log_def clearInterval_def setInterval_def Let_def

section \<open>Reachable states\<close>

text \<open>
  The invariant of the worlds reachable from \<open>boot\<close>: the state of a mounted widget is
  either the initial one, with its effects pending and no timer, or initialized with a
  timestamp read from the clock; exactly the timer its cleanup will clear is armed, and
  that only in client mode; every armed timer has an id that was handed out.
\<close>

definition stamped :: "nat \<Rightarrow> string \<Rightarrow> bool" where
  "stamped c s = (\<exists>t\<le>c. s = toISOString t)"

definition fiber_ok :: "Browser \<Rightarrow> Fiber \<Rightarrow> bool" where
  "fiber_ok b f =
     (((timestamp (timeData f) = []) = (\<not> isHydrated (timeData f))) \<and>
      hydration_ran f = isHydrated (timeData f) \<and>
      pending f = (\<not> hydration_ran f) \<and>
      hydrations f = (if hydration_ran f then 1 else 0) \<and>
      timers b = (case cleanup f of Some i \<Rightarrow> [i] | None \<Rightarrow> []) \<and>
      (if pending f then update_deps f = None \<and> cleanup f = None
       else update_deps f = Some (mode f, True) \<and> (cleanup f \<noteq> None) = (mode f = client)) \<and>
      (isHydrated (timeData f) \<longrightarrow> stamped (clock b) (timestamp (timeData f))))"

definition world_ok :: "World \<Rightarrow> bool" where
  "world_ok w =
     ((\<forall>i\<in>set (timers (fst w)). i < next_id (fst w)) \<and>
      (case snd w of None \<Rightarrow> timers (fst w) = [] | Some f \<Rightarrow> fiber_ok (fst w) f))"

lemma stamped_now [simp]: "stamped c (toISOString c)"
  by (auto simp: stamped_def)

lemma stamped_mono: "stamped c s \<Longrightarrow> stamped (c + n) s"
  by (auto simp: stamped_def intro: trans_le_add1)

lemma stamped_nonempty: "stamped c s \<Longrightarrow> s \<noteq> []"
  by (auto simp: stamped_def toISOString_nonempty)

lemma world_ok_boot: "world_ok (boot c)"
  by (simp add: world_ok_def boot_def)

lemma world_ok_step: "world_ok w \<Longrightarrow> world_ok (step e w)"
proof (cases w)
  case (Pair b inst)
  assume ok: "world_ok w"
  show ?thesis
  proof (cases inst)
    case None
    with ok Pair show ?thesis
      by (cases e) (auto simp: world_ok_def fiber_ok_def mount_def)
  next
    case (Some f)
    with ok Pair show ?thesis
      by (cases e)
         (auto simp: world_ok_def fiber_ok_def model_defs toISOString_nonempty
               split: option.splits if_splits intro: stamped_mono)
  qed
qed

lemma world_ok_run: "world_ok w \<Longrightarrow> world_ok (run es w)"
  by (induction es arbitrary: w) (simp_all add: world_ok_step)

lemma reachable_ok: "run es (boot c) = (b, inst) \<Longrightarrow> world_ok (b, inst)"
  using world_ok_run [OF world_ok_boot, of es c] by simp

subsection \<open>What a commit changes\<close>

lemma commit_timeData:
  "timeData (snd (commit_effects (b, f))) =
     (if hydration_ran f then timeData f
      else \<lparr>timestamp = toISOString (clock b), isHydrated = True\<rparr>)"
  by (simp add: model_defs split: option.splits)

lemma commit_mode: "mode (snd (commit_effects (b, f))) = mode f"
  by (simp add: model_defs)

lemma commit_hydration_ran: "hydration_ran (snd (commit_effects bf))"
  by (simp add: model_defs)

lemma commit_calls: "calls (fst (commit_effects bf)) = calls (fst bf)"
  by (simp add: model_defs split: option.splits)

lemma commit_clock: "clock (fst (commit_effects bf)) = clock (fst bf)"
  by (simp add: model_defs split: option.splits)

lemma commit_fresh:
  assumes "i < next_id (fst bf)" and "i \<notin> set (timers (fst bf))"
  shows "i < next_id (fst (commit_effects bf))" and "i \<notin> set (timers (fst (commit_effects bf)))"
  using assms by (auto simp: model_defs split: option.splits)

lemma flush_timeData:
  "timeData (snd (flush (b, f))) =
     (if hydration_ran f then timeData f
      else \<lparr>timestamp = toISOString (clock b), isHydrated = True\<rparr>)"
proof (cases "hydration_ran f")
  case True
  then show ?thesis by (simp add: flush_def commit_timeData)
next
  case False
  have "timeData (snd (commit_effects (commit_effects (b, f)))) =
      timeData (snd (commit_effects (b, f)))"
    using commit_timeData [of "fst (commit_effects (b, f))" "snd (commit_effects (b, f))"]
      commit_hydration_ran [of "(b, f)"] by simp
  with False show ?thesis by (simp add: flush_def commit_timeData)
qed

lemma flush_mode: "mode (snd (flush (b, f))) = mode f"
proof -
  have "mode (snd (commit_effects (commit_effects (b, f)))) = mode f"
    using commit_mode [of "fst (commit_effects (b, f))" "snd (commit_effects (b, f))"]
    by (simp add: commit_mode)
  then show ?thesis by (simp add: flush_def commit_mode)
qed

lemma flush_calls: "calls (fst (flush bf)) = calls (fst bf)"
  by (simp add: flush_def commit_calls)

lemma flush_fresh:
  assumes "i < next_id (fst bf)" and "i \<notin> set (timers (fst bf))"
  shows "i < next_id (fst (flush bf))" and "i \<notin> set (timers (fst (flush bf)))"
  using assms commit_fresh [of i bf] commit_fresh [of i "commit_effects bf"]
  by (auto simp: flush_def)

lemma flushPassive_timeData:
  "timeData (snd (flushPassiveEffects (b, f))) =
     (if pending f \<and> \<not> hydration_ran f
      then \<lparr>timestamp = toISOString (clock b), isHydrated = True\<rparr> else timeData f)"
  by (simp add: flushPassiveEffects_def flush_timeData)

lemma flushPassive_mode: "mode (snd (flushPassiveEffects (b, f))) = mode f"
  by (simp add: flushPassiveEffects_def flush_mode)

lemma flushPassive_calls: "calls (fst (flushPassiveEffects bf)) = calls (fst bf)"
  by (simp add: flushPassiveEffects_def flush_calls)

lemma flushPassive_fresh:
  assumes "i < next_id (fst bf)" and "i \<notin> set (timers (fst bf))"
  shows "i < next_id (fst (flushPassiveEffects bf))"
    and "i \<notin> set (timers (fst (flushPassiveEffects bf)))"
  using assms flush_fresh [of i bf] by (auto simp: flushPassiveEffects_def)

subsection \<open>The initialized flag and the static timestamp along a trace\<close>

lemma map_prod_Some [simp]: "map_prod id Some p = (fst p, Some (snd p))"
  by (cases p) simp

lemma step_mounted:
  assumes "e \<noteq> Unmount"
  shows "\<exists>b' f'. step e (b, Some f) = (b', Some f')"
  using assms by (cases e) (auto simp: split_beta)

lemma hydrated_step:
  assumes "isHydrated (timeData f)" and "e \<noteq> Unmount"
  shows "\<exists>b' f'. step e (b, Some f) = (b', Some f') \<and> isHydrated (timeData f')"
proof (cases e)
  case (SetMode m)
  have "isHydrated (timeData (snd (flushPassiveEffects (b, f))))"
    using assms(1) by (simp add: flushPassive_timeData)
  then have "isHydrated (timeData (snd (flush (fst (flushPassiveEffects (b, f)),
       (snd (flushPassiveEffects (b, f)))\<lparr>mode := m\<rparr>))))"
    by (simp add: flush_timeData)
  with SetMode show ?thesis by (simp add: split_beta)
next
  case (Tick i)
  have "isHydrated (timeData (snd (flush (b\<lparr>calls := i # calls b\<rparr>,
      f\<lparr>timeData := interval_callback b (timeData f)\<rparr>))))"
    using assms(1) by (simp add: flush_timeData interval_callback_def)
  with Tick assms(1) show ?thesis by simp
next
  case Effects
  with assms(1) show ?thesis by (simp add: flushPassive_timeData)
qed (use assms in simp_all)

lemma hydrated_run:
  assumes "isHydrated (timeData f)" and "Unmount \<notin> set es"
  shows "\<exists>b' f'. run es (b, Some f) = (b', Some f') \<and> isHydrated (timeData f')"
  using assms
proof (induction es arbitrary: b f)
  case Nil
  then show ?case by simp
next
  case (Cons e es)
  from Cons.prems have "e \<noteq> Unmount" by auto
  from hydrated_step [OF Cons.prems(1) this, of b]
  obtain b1 f1 where s: "step e (b, Some f) = (b1, Some f1)" and h: "isHydrated (timeData f1)"
    by blast
  from Cons.prems have "Unmount \<notin> set es" by simp
  from Cons.IH [OF h this, of b1] s show ?case by simp
qed

lemma static_step:
  assumes "world_ok (b, Some f)" and "mode f = server" and "isHydrated (timeData f)"
    and "e \<noteq> SetMode client" and "e \<noteq> Unmount"
  shows "\<exists>b' f'. step e (b, Some f) = (b', Some f') \<and> timeData f' = timeData f
           \<and> mode f' = server"
proof -
  from assms(1-3) have ran: "hydration_ran f" and tm: "timers b = []"
    by (auto simp: world_ok_def fiber_ok_def split: if_splits)
  show ?thesis
  proof (cases e)
    case (SetMode m)
    with assms(4) have m: "m = server" by (cases m) simp_all
    have "hydration_ran (snd (flushPassiveEffects (b, f)))"
      using ran by (simp add: flushPassiveEffects_def flush_def commit_hydration_ran)
    with SetMode m assms(2) ran show ?thesis
      by (simp add: split_beta flush_timeData flush_mode flushPassive_timeData)
  next
    case (Tick i)
    with tm show ?thesis by (simp add: assms(2))
  next
    case Effects
    with ran assms(2) show ?thesis
      by (simp add: flushPassive_timeData flushPassive_mode)
  qed (use assms in simp_all)
qed

lemma static_run:
  assumes "world_ok (b, Some f)" and "mode f = server" and "isHydrated (timeData f)"
    and "SetMode client \<notin> set es" and "Unmount \<notin> set es"
  shows "\<exists>b' f'. run es (b, Some f) = (b', Some f') \<and> timeData f' = timeData f
           \<and> mode f' = server"
  using assms
proof (induction es arbitrary: b f)
  case Nil
  then show ?case by simp
next
  case (Cons e es)
  from Cons.prems have e: "e \<noteq> SetMode client" "e \<noteq> Unmount" by auto
  from static_step [OF Cons.prems(1-3) e]
  obtain b1 f1 where s: "step e (b, Some f) = (b1, Some f1)"
    and t: "timeData f1 = timeData f" and m: "mode f1 = server" by blast
  from world_ok_step [OF Cons.prems(1), of e] s have ok: "world_ok (b1, Some f1)" by simp
  from Cons.prems(3) t have h: "isHydrated (timeData f1)" by simp
  from Cons.prems have "SetMode client \<notin> set es" "Unmount \<notin> set es" by simp_all
  from Cons.IH [OF ok m h this] s t show ?case by simp
qed

subsection \<open>Timers that are cleared stay silent\<close>

text \<open>
  A timer id is retired when it was handed out and is not armed. It stays retired, and its
  callback is not invoked again, whatever happens next. A world is idle when the widget
  is unmounted or in server mode: no timer is armed then.
\<close>

definition retired :: "nat \<Rightarrow> World \<Rightarrow> bool" where
  "retired i w = (i < next_id (fst w) \<and> i \<notin> set (timers (fst w)))"

lemma cleanup_fresh:
  assumes "i < next_id b" and "i \<notin> set (timers b)"
  shows "i < next_id (update_cleanup j b)" and "i \<notin> set (timers (update_cleanup j b))"
  using assms by (simp_all add: update_cleanup_def clearInterval_def console_log_def)

lemma cleanup_calls: "calls (update_cleanup j b) = calls b"
  by (simp add: update_cleanup_def clearInterval_def console_log_def)

lemma cleanup_next_id: "next_id (update_cleanup j b) = next_id b"
  by (simp add: update_cleanup_def clearInterval_def console_log_def)

lemma commit_next_id: "next_id (fst bf) \<le> next_id (fst (commit_effects bf))"
  by (simp add: model_defs split: option.splits)

lemma flush_next_id: "next_id (fst bf) \<le> next_id (fst (flush bf))"
  using commit_next_id [of bf] commit_next_id [of "commit_effects bf"]
  by (simp add: flush_def)

lemma flushPassive_next_id: "next_id (fst bf) \<le> next_id (fst (flushPassiveEffects bf))"
  using flush_next_id [of bf] by (simp add: flushPassiveEffects_def)

lemma retired_step:
  assumes "retired i w"
  shows "retired i (step e w) \<and>
     count_list (calls (fst (step e w))) i = count_list (calls (fst w)) i"
proof (cases w)
  case (Pair b inst)
  with assms have fr: "i < next_id b" "i \<notin> set (timers b)" by (simp_all add: retired_def)
  show ?thesis
  proof (cases inst)
    case None
    with Pair fr show ?thesis by (cases e) (auto simp: retired_def)
  next
    case (Some f)
    show ?thesis
    proof (cases e)
      case (Mount m)
      with Pair Some fr show ?thesis by (simp add: retired_def)
    next
      case Effects
      with Pair Some fr flushPassive_fresh [of i "(b, f)"] show ?thesis
        by (simp add: retired_def flushPassive_calls)
    next
      case (SetMode m)
      let ?p = "flushPassiveEffects (b, f)"
      from fr flushPassive_fresh [of i "(b, f)"]
      have 1: "i < next_id (fst ?p)" "i \<notin> set (timers (fst ?p))" by simp_all
      from flush_fresh [of i "(fst ?p, (snd ?p)\<lparr>mode := m\<rparr>)"] 1
      have "i < next_id (fst (flush (fst ?p, (snd ?p)\<lparr>mode := m\<rparr>)))"
        and "i \<notin> set (timers (fst (flush (fst ?p, (snd ?p)\<lparr>mode := m\<rparr>))))" by simp_all
      with Pair Some SetMode show ?thesis
        by (simp add: retired_def split_beta flush_calls flushPassive_calls)
    next
      case (Tick j)
      show ?thesis
      proof (cases "j \<in> set (timers b)")
        case True
        with fr have ne: "j \<noteq> i" by auto
        let ?q = "(b\<lparr>calls := j # calls b\<rparr>, f\<lparr>timeData := interval_callback b (timeData f)\<rparr>)"
        from flush_fresh [of i ?q] fr
        have "i < next_id (fst (flush ?q))" and "i \<notin> set (timers (fst (flush ?q)))"
          by simp_all
        with Pair Some Tick True ne show ?thesis
          by (simp add: retired_def flush_calls)
      next
        case False
        with Pair Some Tick fr show ?thesis by (simp add: retired_def)
      qed
    next
      case (Elapse n)
      with Pair Some fr show ?thesis by (simp add: retired_def)
    next
      case Unmount
      let ?p = "flushPassiveEffects (b, f)"
      from fr flushPassive_fresh [of i "(b, f)"]
      have 1: "i < next_id (fst ?p)" "i \<notin> set (timers (fst ?p))" by simp_all
      with Pair Some Unmount cleanup_fresh [OF 1] show ?thesis
        by (simp add: retired_def split_beta flushPassive_calls cleanup_calls split: option.splits)
    qed
  qed
qed

lemma retired_run:
  assumes "retired i w"
  shows "retired i (run es w) \<and>
     count_list (calls (fst (run es w))) i = count_list (calls (fst w)) i"
  using assms
proof (induction es arbitrary: w)
  case Nil
  then show ?case by simp
next
  case (Cons e es)
  from retired_step [OF Cons.prems, of e] Cons.IH [of "step e w"] show ?case by simp
qed

lemma server_no_timers:
  assumes "world_ok (b, Some f)" and "mode f = server"
  shows "timers b = []"
  using assms by (auto simp: world_ok_def fiber_ok_def split: if_splits)

lemma unmounted_no_timers: "world_ok (b, None) \<Longrightarrow> timers b = []"
  by (simp add: world_ok_def)

lemma timer_ids_issued: "world_ok (b, inst) \<Longrightarrow> i \<in> set (timers b) \<Longrightarrow> i < next_id b"
  by (simp add: world_ok_def)

definition idle :: "World \<Rightarrow> bool" where
  "idle w = (world_ok w \<and> (case snd w of None \<Rightarrow> True | Some f \<Rightarrow> mode f = server))"

lemma idle_no_timers: "idle w \<Longrightarrow> timers (fst w) = []"
  by (cases w; cases "snd w")
     (auto simp: idle_def dest: server_no_timers unmounted_no_timers)

lemma step_calls_idle:
  assumes "timers (fst w) = []"
  shows "calls (fst (step e w)) = calls (fst w)"
proof (cases w)
  case (Pair b inst)
  with assms show ?thesis
    by (cases e; cases inst)
       (simp_all add: split_beta flush_calls flushPassive_calls cleanup_calls
          split: option.splits)
qed

lemma idle_step:
  assumes "idle w" and "e \<noteq> SetMode client" and "e \<noteq> Mount client"
  shows "idle (step e w)" and "calls (fst (step e w)) = calls (fst w)"
proof -
  from assms(1) have ok: "world_ok (step e w)" by (simp add: idle_def world_ok_step)
  have "case snd (step e w) of None \<Rightarrow> True | Some f \<Rightarrow> mode f = server"
  proof (cases w)
    case (Pair b inst)
    show ?thesis
    proof (cases inst)
      case None
      with Pair assms(3) show ?thesis
        by (cases e) (auto simp: mount_def intro: RenderMode.exhaust)
    next
      case (Some f)
      with Pair assms(1) have m: "mode f = server" by (simp add: idle_def)
      from assms(2) have sm: "e = SetMode m' \<Longrightarrow> m' = server" for m'
        by (cases m') simp_all
      from Pair Some m sm show ?thesis
        by (cases e)
           (auto simp: split_beta flush_mode flushPassive_mode split: if_splits)
    qed
  qed
  with ok show "idle (step e w)" by (simp add: idle_def)
  from idle_no_timers [OF assms(1)] show "calls (fst (step e w)) = calls (fst w)"
    by (rule step_calls_idle)
qed

lemma idle_run:
  assumes "idle w" and "SetMode client \<notin> set es" and "Mount client \<notin> set es"
  shows "calls (fst (run es w)) = calls (fst w)"
  using assms
proof (induction es arbitrary: w)
  case Nil
  then show ?case by simp
next
  case (Cons e es)
  from Cons.prems have e: "e \<noteq> SetMode client" "e \<noteq> Mount client" by auto
  from Cons.prems have "SetMode client \<notin> set es" "Mount client \<notin> set es" by simp_all
  from Cons.IH [OF idle_step(1) [OF Cons.prems(1) e] this] idle_step(2) [OF Cons.prems(1) e]
  show ?case by simp
qed

lemma cancel_idle:
  assumes "world_ok (b, Some f)" and "e = SetMode server \<or> e = Unmount"
  shows "idle (step e (b, Some f))"
proof -
  from assms(1) have ok: "world_ok (step e (b, Some f))" by (rule world_ok_step)
  from assms(2) have "case snd (step e (b, Some f)) of None \<Rightarrow> True | Some f' \<Rightarrow> mode f' = server"
    by (auto simp: split_beta flush_mode)
  with ok show ?thesis by (simp add: idle_def)
qed

lemma cancel_calls:
  assumes "e = SetMode server \<or> e = Unmount"
  shows "calls (fst (step e (b, Some f))) = calls b"
  using assms
  by (auto simp: split_beta flush_calls flushPassive_calls cleanup_calls split: option.splits)

lemma cancel_next_id:
  assumes "e = SetMode server \<or> e = Unmount" and "i < next_id b"
  shows "i < next_id (fst (step e (b, Some f)))"
proof -
  let ?p = "flushPassiveEffects (b, f)"
  from assms(2) flushPassive_next_id [of "(b, f)"] have 1: "i < next_id (fst ?p)" by simp
  from assms(1) show ?thesis
  proof
    assume "e = SetMode server"
    with 1 flush_next_id [of "(fst ?p, (snd ?p)\<lparr>mode := server\<rparr>)"] show ?thesis
      by (simp add: split_beta)
  next
    assume "e = Unmount"
    with 1 show ?thesis
      by (simp add: split_beta cleanup_next_id split: option.splits)
  qed
qed

lemma commit_pending: "\<not> pending (snd (commit_effects bf))"
  by (simp add: model_defs)

lemma flush_pending: "\<not> pending (snd (flush bf))"
  by (simp add: flush_def commit_pending)

lemma flushPassive_pending: "\<not> pending (snd (flushPassiveEffects bf))"
  by (simp add: flushPassiveEffects_def flush_pending)

lemma flushPassive_clock: "clock (fst (flushPassiveEffects bf)) = clock (fst bf)"
  by (simp add: flushPassiveEffects_def flush_def commit_clock)

lemma stamped_valid:
  assumes "stamped c s" and "c \<le> 8640000000000000"
  shows "iso8601 s"
proof -
  from assms(1) obtain t where "t \<le> c" and s: "s = toISOString t"
    by (auto simp: stamped_def)
  with assms(2) have "t \<le> 8640000000000000" by simp
  then show ?thesis unfolding s by (rule toISOString_valid)
qed

section \<open>The claims\<close>

text \<open>
  Claim C1. In every state the display widget can reach (after the first render, after
  the initialization effect, after any timer callbacks, mode changes and remounts), the
  timestamp text is empty if and only if the widget is not initialized.
\<close>

theorem timestamp_empty_iff_uninitialized:
  assumes "run es (boot c) = (b, Some f)"
  shows "(timestamp (timeData f) = []) = (\<not> isHydrated (timeData f))"
  using reachable_ok [OF assms] by (simp add: world_ok_def fiber_ok_def)

text \<open>
  The statement above at a concrete run that meets its hypotheses.
\<close>

theorem timestamp_empty_iff_uninitialized_witness:
  "\<exists>b f. run [Mount client, Effects, Elapse 1000, Tick 1] (boot 0) = (b, Some f)
     \<and> (timestamp (timeData f) = []) = (\<not> isHydrated (timeData f))"
proof -
  have "\<exists>b f. run [Mount client, Effects, Elapse 1000, Tick 1] (boot 0) = (b, Some f)"
    by (simp add: model_defs)
  then obtain b f where r: "run [Mount client, Effects, Elapse 1000, Tick 1] (boot 0) = (b, Some f)"
    by blast
  from timestamp_empty_iff_uninitialized [OF r] r show ?thesis by blast
qed

text \<open>
  Claim C2. For every mount, the initialization transition runs exactly once: it has not
  run while the effects of the first render are pending, it has run once ever after, and
  the run of those effects is the step that performs it, setting the timestamp to the
  current time. From then on the widget is initialized and its timestamp is a valid
  ISO-8601 string. The clock is within the time values of ECMA-262.
\<close>

theorem initialization_exactly_once:
  assumes "run es (boot c) = (b, Some f)" and "clock b \<le> 8640000000000000"
  shows "hydrations f = (if pending f then 0 else 1) \<and>
    (\<not> pending f \<longrightarrow> isHydrated (timeData f) \<and> iso8601 (timestamp (timeData f))) \<and>
    (\<exists>b' f'. step Effects (b, Some f) = (b', Some f') \<and> \<not> pending f' \<and> hydrations f' = 1
       \<and> isHydrated (timeData f') \<and> iso8601 (timestamp (timeData f'))
       \<and> (pending f \<longrightarrow> timestamp (timeData f') = toISOString (clock b)))"
proof -
  from reachable_ok [OF assms(1)] have ok: "world_ok (b, Some f)" .
  then have fo: "fiber_ok b f" by (simp add: world_ok_def)
  have 1: "hydrations f = (if pending f then 0 else 1)"
    using fo by (simp add: fiber_ok_def)
  have 2: "\<not> pending f \<longrightarrow> isHydrated (timeData f) \<and> iso8601 (timestamp (timeData f))"
    using fo assms(2) by (auto simp: fiber_ok_def intro: stamped_valid)
  let ?p = "flushPassiveEffects (b, f)"
  have st: "step Effects (b, Some f) = (fst ?p, Some (snd ?p))" by simp
  from world_ok_step [OF ok, of Effects] have "fiber_ok (fst ?p) (snd ?p)"
    by (simp add: world_ok_def)
  moreover have np: "\<not> pending (snd ?p)" by (rule flushPassive_pending)
  moreover have "clock (fst ?p) \<le> 8640000000000000"
    using assms(2) by (simp add: flushPassive_clock)
  ultimately have 3: "hydrations (snd ?p) = 1" "isHydrated (timeData (snd ?p))"
    "iso8601 (timestamp (timeData (snd ?p)))"
    by (auto simp: fiber_ok_def intro: stamped_valid)
  have 4: "pending f \<longrightarrow> timestamp (timeData (snd ?p)) = toISOString (clock b)"
    using fo by (simp add: flushPassive_timeData fiber_ok_def)
  from 1 2 3 4 np st show ?thesis by blast
qed

text \<open>
  The statement above at a concrete run that meets its hypotheses.
\<close>

theorem initialization_exactly_once_witness:
  "\<exists>b f. run [Mount server] (boot 0) = (b, Some f) \<and> clock b \<le> 8640000000000000
     \<and> hydrations f = 0 \<and> pending f
     \<and> (\<exists>b' f'. step Effects (b, Some f) = (b', Some f') \<and> \<not> pending f' \<and> hydrations f' = 1
          \<and> isHydrated (timeData f') \<and> iso8601 (timestamp (timeData f'))
          \<and> timestamp (timeData f') = ''1970-01-01T00:00:00.000Z'')"
proof -
  have "\<exists>b f. run [Mount server] (boot 0) = (b, Some f) \<and> clock b = 0 \<and> pending f"
    by (simp add: model_defs)
  then obtain b f where r: "run [Mount server] (boot 0) = (b, Some f)"
    and c0: "clock b = 0" and p: "pending f" by blast
  from c0 have c: "clock b \<le> 8640000000000000" by simp
  from initialization_exactly_once [OF r c] p r c c0 show ?thesis
    by (auto simp: toISOString_epoch)
qed



text \<open>
  Claim C4. When the mode goes from client to server, or the widget is unmounted, while
  timer \<open>i\<close> is armed: at the end of that step no timer is armed and no callback has run in
  it; whatever happens afterwards, timer \<open>i\<close> is never armed again and its callback is never
  invoked again; and no callback at all is invoked as long as the mode is not set back to
  client (by the controller or by a new mount in client mode).
\<close>

theorem cancellation_is_synchronous_and_final:
  assumes "run es (boot c) = (b, Some f)" and "i \<in> set (timers b)"
    and "e = SetMode server \<or> e = Unmount"
  shows "mode f = client \<and>
    timers (fst (step e (b, Some f))) = [] \<and>
    calls (fst (step e (b, Some f))) = calls b \<and>
    (\<forall>es'. i \<notin> set (timers (fst (run es' (step e (b, Some f))))) \<and>
        count_list (calls (fst (run es' (step e (b, Some f))))) i = count_list (calls b) i) \<and>
    (\<forall>es'. SetMode client \<notin> set es' \<and> Mount client \<notin> set es' \<longrightarrow>
        calls (fst (run es' (step e (b, Some f)))) = calls b)"
proof -
  let ?s = "step e (b, Some f)"
  from reachable_ok [OF assms(1)] have ok: "world_ok (b, Some f)" .
  have m: "mode f = client"
    using ok assms(2) by (auto simp: world_ok_def fiber_ok_def split: if_splits)
  have idle: "idle ?s" using ok assms(3) by (rule cancel_idle)
  then have t: "timers (fst ?s) = []" by (rule idle_no_timers)
  have c: "calls (fst ?s) = calls b" using assms(3) by (rule cancel_calls)
  from timer_ids_issued [OF ok assms(2)] have "i < next_id b" .
  with assms(3) have "i < next_id (fst ?s)" by (rule cancel_next_id)
  with t have ret: "retired i ?s" by (simp add: retired_def)
  have 1: "i \<notin> set (timers (fst (run es' ?s))) \<and>
      count_list (calls (fst (run es' ?s))) i = count_list (calls b) i" for es'
    using retired_run [OF ret, of es'] c by (simp add: retired_def)
  have 2: "SetMode client \<notin> set es' \<and> Mount client \<notin> set es' \<longrightarrow>
      calls (fst (run es' ?s)) = calls b" for es'
    using idle_run [OF idle, of es'] c by simp
  from m t c 1 2 show ?thesis by blast
qed

text \<open>
  The statement above at a concrete run that meets its hypotheses.
\<close>

theorem cancellation_is_synchronous_and_final_witness:
  "\<exists>b f. run [Mount client, Effects, Elapse 1000, Tick 1] (boot 0) = (b, Some f)
     \<and> 1 \<in> set (timers b)
     \<and> timers (fst (step (SetMode server) (b, Some f))) = []
     \<and> timers (fst (step Unmount (b, Some f))) = []
     \<and> count_list (calls (fst (run [Elapse 1000, Tick 1, SetMode client, Tick 1, Tick 2]
           (step (SetMode server) (b, Some f))))) 1 = count_list (calls b) 1
     \<and> calls (fst (run [Elapse 1000, Tick 1, Mount server, Effects, Tick 1]
           (step Unmount (b, Some f)))) = calls b"
proof -
  have "\<exists>b f. run [Mount client, Effects, Elapse 1000, Tick 1] (boot 0) = (b, Some f)
      \<and> 1 \<in> set (timers b)"
    by (simp add: model_defs)
  then obtain b f where r: "run [Mount client, Effects, Elapse 1000, Tick 1] (boot 0) = (b, Some f)"
    and t: "1 \<in> set (timers b)" by blast
  note toggle = cancellation_is_synchronous_and_final [OF r t disjI1 [OF refl]]
  note teardown = cancellation_is_synchronous_and_final [OF r t disjI2 [OF refl]]
  have q: "SetMode client \<notin> set [Elapse 1000, Tick 1, Mount server, Effects, Tick 1] \<and>
      Mount client \<notin> set [Elapse 1000, Tick 1, Mount server, Effects, Tick 1]" by simp
  from toggle have 1: "timers (fst (step (SetMode server) (b, Some f))) = []" by blast
  from teardown have 2: "timers (fst (step Unmount (b, Some f))) = []" by blast
  from toggle have 3: "count_list (calls (fst (run [Elapse 1000, Tick 1, SetMode client, Tick 1, Tick 2]
           (step (SetMode server) (b, Some f))))) 1 = count_list (calls b) 1" by blast
  from teardown q have 4: "calls (fst (run [Elapse 1000, Tick 1, Mount server, Effects, Tick 1]
           (step Unmount (b, Some f)))) = calls b" by blast
  from r t 1 2 3 4 show ?thesis by blast
qed

text \<open>
  Claim C5. Once the widget is initialized and in server mode, its state, and so its
  timestamp, stays the same under every sequence of events without a switch to client
  mode (and without the unmount that discards the state): timer callbacks, the passing of
  time, effect runs and renders with the same mode do not change it.
\<close>

theorem static_timestamp_is_frozen:
  assumes "run es (boot c) = (b, Some f)" and "mode f = server" and "isHydrated (timeData f)"
    and "SetMode client \<notin> set es'" and "Unmount \<notin> set es'"
  shows "\<exists>b' f'. run es' (b, Some f) = (b', Some f') \<and> timeData f' = timeData f"
  using static_run [OF reachable_ok [OF assms(1)] assms(2-5)] by blast

text \<open>
  The statement above at a concrete run that meets its hypotheses.
\<close>

theorem static_timestamp_is_frozen_witness:
  "\<exists>b f. run [Mount server, Effects] (boot 0) = (b, Some f) \<and> mode f = server
     \<and> isHydrated (timeData f)
     \<and> (\<exists>b' f'. run [Elapse 1000, Tick 1, Effects, Elapse 500, SetMode server, Mount client]
            (b, Some f) = (b', Some f') \<and> timeData f' = timeData f)"
proof -
  have "\<exists>b f. run [Mount server, Effects] (boot 0) = (b, Some f) \<and> mode f = server
      \<and> isHydrated (timeData f)"
    by (simp add: model_defs)
  then obtain b f where r: "run [Mount server, Effects] (boot 0) = (b, Some f)"
    and m: "mode f = server" and h: "isHydrated (timeData f)" by blast
  have "SetMode client \<notin> set [Elapse 1000, Tick 1, Effects, Elapse 500, SetMode server, Mount client]"
    and "Unmount \<notin> set [Elapse 1000, Tick 1, Effects, Elapse 500, SetMode server, Mount client]"
    by simp_all
  from static_timestamp_is_frozen [OF r m h this] r m h show ?thesis by blast
qed

text \<open>
  Claim C7. For every mode and every state that is initialized and, as the data model
  requires of an initialized state, has a timestamp that is not empty, the render is the
  static view (blue indicator, "Server Rendered") exactly when the mode is server, and the
  live view (green pulsing indicator, "Client Rendered") exactly when the mode is client.
  Every initialized state the widget can reach is such a state, so the same holds of
  every reachable state with the widget initialized.
\<close>

theorem view_matches_mode:
  "(isHydrated td \<and> timestamp td \<noteq> [] \<longrightarrow>
      (TimeDisplay dev m td =
         Panel ''bg-blue-500'' ''Server Rendered'' (timestamp td)
           ''Static server render with Suspense'' (if dev then Some ''Yes'' else None))
        = (m = server) \<and>
      (TimeDisplay dev m td =
         Panel ''bg-green-500 animate-pulse'' ''Client Rendered'' (timestamp td)
           ''Live updating with Suspense'' (if dev then Some ''Yes'' else None))
        = (m = client)) \<and>
   (run es (boot c) = (b, Some f) \<and> isHydrated (timeData f) \<longrightarrow>
      timestamp (timeData f) \<noteq> [] \<and>
      (TimeDisplay dev (mode f) (timeData f) =
         Panel ''bg-blue-500'' ''Server Rendered'' (timestamp (timeData f))
           ''Static server render with Suspense'' (if dev then Some ''Yes'' else None))
        = (mode f = server) \<and>
      (TimeDisplay dev (mode f) (timeData f) =
         Panel ''bg-green-500 animate-pulse'' ''Client Rendered'' (timestamp (timeData f))
           ''Live updating with Suspense'' (if dev then Some ''Yes'' else None))
        = (mode f = client))"
proof -
  have pure: "(TimeDisplay dev m' td' =
         Panel ''bg-blue-500'' ''Server Rendered'' (timestamp td')
           ''Static server render with Suspense'' (if dev then Some ''Yes'' else None))
        = (m' = server) \<and>
      (TimeDisplay dev m' td' =
         Panel ''bg-green-500 animate-pulse'' ''Client Rendered'' (timestamp td')
           ''Live updating with Suspense'' (if dev then Some ''Yes'' else None))
        = (m' = client)"
    if "isHydrated td'" and "timestamp td' \<noteq> []" for m' td'
    using that by (cases m') (simp_all add: TimeDisplay_def)
  have reach: "timestamp (timeData f) \<noteq> []"
    if "run es (boot c) = (b, Some f)" and "isHydrated (timeData f)"
    using reachable_ok [OF that(1)] that(2) by (simp add: world_ok_def fiber_ok_def)
  from pure [of td m] pure [of "timeData f" "mode f"] reach show ?thesis by blast
qed

text \<open>
  The statement above at a concrete state, and at two concrete runs that meet its
  hypotheses, one for each mode.
\<close>

theorem view_matches_mode_witness:
  "TimeDisplay True server \<lparr>timestamp = ''1970-01-01T00:00:00.000Z'', isHydrated = True\<rparr> =
      Panel ''bg-blue-500'' ''Server Rendered'' ''1970-01-01T00:00:00.000Z''
        ''Static server render with Suspense'' (Some ''Yes'') \<and>
   (\<exists>b f. run [Mount server, Effects] (boot 0) = (b, Some f) \<and> isHydrated (timeData f)
      \<and> TimeDisplay False (mode f) (timeData f) =
          Panel ''bg-blue-500'' ''Server Rendered'' (timestamp (timeData f))
            ''Static server render with Suspense'' None) \<and>
   (\<exists>b f. run [Mount server, Effects, SetMode client] (boot 0) = (b, Some f)
      \<and> isHydrated (timeData f)
      \<and> TimeDisplay False (mode f) (timeData f) =
          Panel ''bg-green-500 animate-pulse'' ''Client Rendered'' (timestamp (timeData f))
            ''Live updating with Suspense'' None)"
proof -
  have "\<exists>b f. run [Mount server, Effects] (boot 0) = (b, Some f) \<and> isHydrated (timeData f)
      \<and> mode f = server"
    by (simp add: model_defs)
  then obtain b f where r: "run [Mount server, Effects] (boot 0) = (b, Some f)"
    and h: "isHydrated (timeData f)" and m: "mode f = server" by blast
  have "\<exists>b f. run [Mount server, Effects, SetMode client] (boot 0) = (b, Some f)
      \<and> isHydrated (timeData f) \<and> mode f = client"
    by (simp add: model_defs)
  then obtain b' f' where r': "run [Mount server, Effects, SetMode client] (boot 0) = (b', Some f')"
    and h': "isHydrated (timeData f')" and m': "mode f' = client" by blast
  have 1: "TimeDisplay True server \<lparr>timestamp = ''1970-01-01T00:00:00.000Z'', isHydrated = True\<rparr> =
      Panel ''bg-blue-500'' ''Server Rendered'' ''1970-01-01T00:00:00.000Z''
        ''Static server render with Suspense'' (Some ''Yes'')"
    using view_matches_mode [of "\<lparr>timestamp = ''1970-01-01T00:00:00.000Z'', isHydrated = True\<rparr>"
        True server]
    by simp
  have 2: "TimeDisplay False (mode f) (timeData f) =
          Panel ''bg-blue-500'' ''Server Rendered'' (timestamp (timeData f))
            ''Static server render with Suspense'' None"
    using view_matches_mode [of _ False _ "[Mount server, Effects]" 0 b f] r h m by simp
  have 3: "TimeDisplay False (mode f') (timeData f') =
          Panel ''bg-green-500 animate-pulse'' ''Client Rendered'' (timestamp (timeData f'))
            ''Live updating with Suspense'' None"
    using view_matches_mode [of _ False _ "[Mount server, Effects, SetMode client]" 0 b' f']
      r' h' m' by simp
  from 1 2 3 r h r' h' show ?thesis by blast
qed

text \<open>
  Claim C8. Each firing of the callback of an armed timer replaces the timestamp by the
  current time and leaves the rest of the state as it was; the initialized flag does not
  change.
\<close>

theorem tick_replaces_timestamp_only:
  assumes "run es (boot c) = (b, Some f)" and "i \<in> set (timers b)"
  shows "\<exists>b' f'. step (Tick i) (b, Some f) = (b', Some f') \<and>
     timeData f' = (timeData f)\<lparr>timestamp := toISOString (clock b)\<rparr> \<and>
     isHydrated (timeData f') = isHydrated (timeData f) \<and>
     calls b' = i # calls b"
proof -
  from reachable_ok [OF assms(1)] assms(2) have ran: "hydration_ran f"
    by (auto simp: world_ok_def fiber_ok_def split: if_splits)
  let ?q = "(b\<lparr>calls := i # calls b\<rparr>, f\<lparr>timeData := interval_callback b (timeData f)\<rparr>)"
  from assms(2) have st: "step (Tick i) (b, Some f) = (fst (flush ?q), Some (snd (flush ?q)))"
    by simp
  have td: "timeData (snd (flush ?q)) = (timeData f)\<lparr>timestamp := toISOString (clock b)\<rparr>"
    using ran by (simp add: flush_timeData interval_callback_def)
  have "calls (fst (flush ?q)) = i # calls b" by (simp add: flush_calls)
  with st td show ?thesis by simp
qed

text \<open>
  The statement above at a concrete run that meets its hypotheses.
\<close>

theorem tick_replaces_timestamp_only_witness:
  "\<exists>b f. run [Mount client, Effects, Elapse 1000] (boot 0) = (b, Some f) \<and> 1 \<in> set (timers b)
     \<and> (\<exists>b' f'. step (Tick 1) (b, Some f) = (b', Some f') \<and>
           timeData f' = (timeData f)\<lparr>timestamp := toISOString (clock b)\<rparr> \<and>
           isHydrated (timeData f') = isHydrated (timeData f) \<and> calls b' = 1 # calls b)"
proof -
  have "\<exists>b f. run [Mount client, Effects, Elapse 1000] (boot 0) = (b, Some f)
      \<and> 1 \<in> set (timers b)"
    by (simp add: model_defs)
  then obtain b f where r: "run [Mount client, Effects, Elapse 1000] (boot 0) = (b, Some f)"
    and t: "1 \<in> set (timers b)" by blast
  from tick_replaces_timestamp_only [OF r t] r t show ?thesis by blast
qed

text \<open>
  Claim C9. For every mount, with either mode, in either build mode, the state after the
  first render has the empty timestamp and is not initialized, and the render is the
  loading placeholder.
\<close>

theorem first_render_is_loading_placeholder:
  "\<exists>f. step (Mount m) (b, None) = (b, Some f) \<and> mode f = m \<and>
     timestamp (timeData f) = [] \<and> \<not> isHydrated (timeData f) \<and> pending f \<and>
     TimeDisplay dev m (timeData f) = LoadingDisplay"
  by (simp add: mount_def TimeDisplay_def)

text \<open>
  The statement above at a concrete mount: client mode, a development build, the clock at
  the epoch.
\<close>

theorem first_render_is_loading_placeholder_witness:
  "\<exists>f. step (Mount client) (boot 0) = (fst (boot 0), Some f) \<and> mode f = client \<and>
     timestamp (timeData f) = [] \<and> \<not> isHydrated (timeData f) \<and> pending f \<and>
     TimeDisplay True client (timeData f) = LoadingDisplay"
  using first_render_is_loading_placeholder [of client "fst (boot 0)" True]
  by (simp add: boot_def)

text \<open>
  Claim C10. Once the widget is initialized it stays initialized under every sequence of
  timer callbacks, mode changes in either direction, effect runs and the passing of time;
  only the unmount discards the state.
\<close>

theorem initialized_is_monotone:
  assumes "isHydrated (timeData f)" and "Unmount \<notin> set es"
  shows "(\<exists>b' f'. run es (b, Some f) = (b', Some f') \<and> isHydrated (timeData f')) \<and>
     snd (step Unmount (b, Some f)) = None"
  using hydrated_run [OF assms, of b] by (simp add: split_beta)

text \<open>
  The statement above at a concrete run that meets its hypotheses.
\<close>

theorem initialized_is_monotone_witness:
  "\<exists>b f. run [Mount client, Effects] (boot 0) = (b, Some f) \<and> isHydrated (timeData f) \<and>
     (\<exists>b' f'. run [Elapse 1000, Tick 1, SetMode server, Effects, SetMode client, Tick 2]
         (b, Some f) = (b', Some f') \<and> isHydrated (timeData f')) \<and>
     snd (step Unmount (b, Some f)) = None"
proof -
  have "\<exists>b f. run [Mount client, Effects] (boot 0) = (b, Some f) \<and> isHydrated (timeData f)"
    by (simp add: model_defs)
  then obtain b f where r: "run [Mount client, Effects] (boot 0) = (b, Some f)"
    and h: "isHydrated (timeData f)" by blast
  have "Unmount \<notin> set [Elapse 1000, Tick 1, SetMode server, Effects, SetMode client, Tick 2]"
    by simp
  from initialized_is_monotone [OF h this, of b] r h show ?thesis by blast
qed

end
